theory Spec2Isabelle
  imports Main
begin

section \<open>Strings, file names and paths\<close>

text \<open>
  The development embeds \<^verbatim>\<open>remove_duplicates.py\<close>. A Python \<^verbatim>\<open>str\<close> is a
  \<^typ>\<open>string\<close>; a character stands for a code point below 256, so \<^verbatim>\<open>str.lower()\<close>
  and the case folding of \<^verbatim>\<open>re.IGNORECASE\<close> are the ones of Latin-1: the upper-case
  letters are \<^verbatim>\<open>A-Z\<close> and \<^verbatim>\<open>0xC0-0xDE\<close> without the multiplication sign, and
  their lower-case forms are 32 code points above.
\<close>

definition is_upper :: "char \<Rightarrow> bool" where
  "is_upper c =
     (let n = (of_char c :: nat)
      in (65 \<le> n \<and> n \<le> 90) \<or> (192 \<le> n \<and> n \<le> 222 \<and> n \<noteq> 215))"

definition lower_char :: "char \<Rightarrow> char" where
  "lower_char c = (if is_upper c then char_of ((of_char c :: nat) + 32) else c)"

definition lower :: "string \<Rightarrow> string" where
  "lower s = map lower_char s"

definition is_digit :: "char \<Rightarrow> bool" where
  "is_digit c = (let n = (of_char c :: nat) in 48 \<le> n \<and> n \<le> 57)"

abbreviation newline :: char where
  "newline \<equiv> CHR 0x0A"

abbreviation backslash :: char where
  "backslash \<equiv> CHR 0x5C"

definition endswith :: "string \<Rightarrow> string \<Rightarrow> bool" where
  "endswith s suf = (length suf \<le> length s \<and> drop (length s - length suf) s = suf)"

text \<open>
  \<^verbatim>\<open>os.path.splitext\<close> on a file name (a directory entry, so without a path
  separator): the name is split at its last dot, unless every character before that dot is
  a dot too; then, and when there is no dot, the extension is empty.
\<close>

definition splitext :: "string \<Rightarrow> string \<times> string" where
  "splitext p =
     (case dropWhile (\<lambda>c. c \<noteq> CHR ''.'') (rev p) of
        [] \<Rightarrow> (p, [])
      | _ # r \<Rightarrow>
          if \<exists>c \<in> set r. c \<noteq> CHR ''.'' then (rev r, drop (length r) p) else (p, []))"

text \<open>
  \<^verbatim>\<open>os.path.join(directory, file)\<close>, written with the POSIX separator (nothing below
  depends on the character that separates the parts). The path of a walked file
  is \<^verbatim>\<open>os.path.join(root, file)\<close>; \<^verbatim>\<open>os.path.basename\<close> and \<^verbatim>\<open>os.path.dirname\<close>
  of that path give \<^verbatim>\<open>file\<close> and the directory \<^verbatim>\<open>root\<close> back, so the functions below
  take the two parts.
\<close>

definition path_join :: "string \<Rightarrow> string \<Rightarrow> string" where
  "path_join a b =
     (if b \<noteq> [] \<and> hd b = CHR ''/'' then b
      else if a = [] \<or> last a = CHR ''/'' then a @ b
      else a @ ''/'' @ b)"

section \<open>Regular expressions of the descriptor resolver\<close>

text \<open>
  The patterns of \<^verbatim>\<open>find_metadata_file\<close> are sequences of four kinds of items: a
  literal character (what \<^verbatim>\<open>re.escape\<close> produces, compared under
  \<^verbatim>\<open>re.IGNORECASE\<close>), \<^verbatim>\<open>.\<close> (any character but a newline), \<^verbatim>\<open>.+?\<close> and
  \<^verbatim>\<open>[^()]+\<close>. \<open>tmatch\<close> matches such a sequence against a whole string, trying the
  shortest repetition first as the lazy quantifier does.
\<close>

datatype tok = Lit char | Dot | DotPlus | NoParenPlus

fun tmatch :: "tok list \<Rightarrow> string \<Rightarrow> bool" where
  "tmatch [] s = (s = [])"
| "tmatch (Lit c # ts) [] = False"
| "tmatch (Lit c # ts) (x # xs) = (lower_char x = lower_char c \<and> tmatch ts xs)"
| "tmatch (Dot # ts) [] = False"
| "tmatch (Dot # ts) (x # xs) = (x \<noteq> newline \<and> tmatch ts xs)"
| "tmatch (DotPlus # ts) [] = False"
| "tmatch (DotPlus # ts) (x # xs) =
     (x \<noteq> newline \<and> (tmatch ts xs \<or> tmatch (DotPlus # ts) xs))"
| "tmatch (NoParenPlus # ts) [] = False"
| "tmatch (NoParenPlus # ts) (x # xs) =
     (x \<noteq> CHR ''('' \<and> x \<noteq> CHR '')'' \<and> (tmatch ts xs \<or> tmatch (NoParenPlus # ts) xs))"

definition escape :: "string \<Rightarrow> tok list" where
  "escape s = map Lit s"

text \<open>
  \<^verbatim>\<open>re.match(r"^...$", s)\<close>: the pattern is anchored at the start, and \<^verbatim>\<open>$\<close>
  matches at the end of the string or just before a newline that ends it.
\<close>

definition re_match :: "tok list \<Rightarrow> string \<Rightarrow> bool" where
  "re_match p s = (tmatch p s \<or> (s \<noteq> [] \<and> last s = newline \<and> tmatch p (butlast s)))"

text \<open>
  \<^verbatim>\<open>re.match(r"^(.*?)\((\d+)\)$", base_name_without_ext)\<close>, returning the two groups.
  The string, without a newline that ends it, has to end with \<^verbatim>\<open>(digits)\<close>; the digits
  are the longest run before the closing parenthesis, which fixes both groups, and the
  first group must not contain a newline.
\<close>

definition counter_match :: "string \<Rightarrow> (string \<times> string) option" where
  "counter_match s =
     (let core = (if s \<noteq> [] \<and> last s = newline then butlast s else s)
      in case rev core of
           [] \<Rightarrow> None
         | c # r \<Rightarrow>
             if c \<noteq> CHR '')'' then None
             else (case dropWhile is_digit r of
                     [] \<Rightarrow> None
                   | p # pre \<Rightarrow>
                       if p = CHR ''('' \<and> takeWhile is_digit r \<noteq> [] \<and> newline \<notin> set pre
                       then Some (rev pre, rev (takeWhile is_digit r))
                       else None))"

text \<open>
  The three patterns. \<open>case4\<close> is the source's
  \<^verbatim>\<open>rf"^{re.escape(base_name_without_counter)}\({counter}\)\{re.escape(ext)}\..+?\.json$"\<close>:
  the backslash written before \<^verbatim>\<open>{re.escape(ext)}\<close> pairs with the backslash that
  \<^verbatim>\<open>re.escape\<close> puts before the dot of the extension (or, when the extension is empty,
  with the one of the following \<^verbatim>\<open>\.\<close>), so the pattern asks for a backslash
  character followed by any character where the dot was.
\<close>

definition case2 :: "string \<Rightarrow> tok list" where
  "case2 base_name = escape base_name @ [Lit CHR ''.'', NoParenPlus] @ escape ''.json''"

definition case3 :: "string \<Rightarrow> string \<Rightarrow> tok list" where
  "case3 base_name_without_counter counter =
     escape base_name_without_counter @ [Lit CHR ''.'', DotPlus, Lit CHR ''(''] @
     escape counter @ [Lit CHR '')''] @ escape ''.json''"

definition case4 :: "string \<Rightarrow> string \<Rightarrow> string \<Rightarrow> tok list" where
  "case4 base_name_without_counter counter ext =
     escape base_name_without_counter @ [Lit CHR ''(''] @ escape counter @
     [Lit CHR '')'', Lit backslash, Dot] @
     (case ext of [] \<Rightarrow> [] | _ # e \<Rightarrow> escape e @ [Lit CHR ''.'']) @
     [DotPlus] @ escape ''.json''"

section \<open>The descriptor resolver\<close>

text \<open>
  \<open>accepts base_name file\<close> is the body of the loop of \<^verbatim>\<open>find_metadata_file\<close>
  for one directory entry: whether one of its four \<^verbatim>\<open>return\<close> statements is reached.
\<close>

definition truthy_str :: "string option \<Rightarrow> bool" where
  "truthy_str c = (case c of None \<Rightarrow> False | Some s \<Rightarrow> s \<noteq> [])"

definition case1_hit :: "string \<Rightarrow> string \<Rightarrow> bool" where
  "case1_hit base_name file = (file = base_name @ ''.json'')"

definition case2_hit :: "string \<Rightarrow> string \<Rightarrow> bool" where
  "case2_hit base_name file = re_match (case2 base_name) file"

definition case3_hit :: "string \<Rightarrow> string \<Rightarrow> bool" where
  "case3_hit base_name file =
     (let base_name_without_ext = fst (splitext base_name)
      in case counter_match base_name_without_ext of
           None \<Rightarrow> False
         | Some (base_name_without_counter, counter) \<Rightarrow>
             truthy_str (Some counter) \<and> re_match (case3 base_name_without_counter counter) file)"

definition case4_hit :: "string \<Rightarrow> string \<Rightarrow> bool" where
  "case4_hit base_name file =
     (let (base_name_without_ext, ext) = splitext base_name
      in case counter_match base_name_without_ext of
           None \<Rightarrow> False
         | Some (base_name_without_counter, counter) \<Rightarrow>
             truthy_str (Some counter) \<and>
             re_match (case4 base_name_without_counter counter ext) file)"

definition accepts :: "string \<Rightarrow> string \<Rightarrow> bool" where
  "accepts base_name file =
     (if endswith file ''.json'' then
        if case1_hit base_name file then True
        else if case2_hit base_name file then True
        else if case3_hit base_name file then True
        else if case4_hit base_name file then True
        else False
      else False)"

text \<open>
  \<^verbatim>\<open>find_metadata_file(media_file)\<close>, for the media file \<open>base_name\<close> of
  \<open>directory\<close>; \<open>listing\<close> is \<^verbatim>\<open>os.listdir(directory)\<close>, in the order the operating
  system gives it.
\<close>

fun find_metadata_file :: "string \<Rightarrow> string \<Rightarrow> string list \<Rightarrow> string option" where
  "find_metadata_file directory base_name [] = None"
| "find_metadata_file directory base_name (file # listing) =
     (if accepts base_name file then Some (path_join directory file)
      else find_metadata_file directory base_name listing)"

section \<open>Python values\<close>

text \<open>
  The values \<^verbatim>\<open>json.load\<close> returns, without floating-point numbers: \<^verbatim>\<open>None\<close>,
  booleans, integers, strings, lists and dicts with string keys. A dict is the list of its
  items in insertion order, its keys pairwise distinct.
\<close>

datatype pyval =
  PNone | PBool bool | PInt int | PStr string | PList "pyval list"
| PDict "(string \<times> pyval) list"

datatype error =
  JSONDecodeError | TypeError | KeyError | ValueError
| FileNotFoundError | PermissionError | IsADirectoryError

text \<open>The classes caught by \<^verbatim>\<open>except (IOError, OSError)\<close>.\<close>

definition is_OSError :: "error \<Rightarrow> bool" where
  "is_OSError e = (e = FileNotFoundError \<or> e = PermissionError \<or> e = IsADirectoryError)"

text \<open>Truth value of a value in a condition.\<close>

fun py_truthy :: "pyval \<Rightarrow> bool" where
  "py_truthy PNone = False"
| "py_truthy (PBool b) = b"
| "py_truthy (PInt n) = (n \<noteq> 0)"
| "py_truthy (PStr s) = (s \<noteq> [])"
| "py_truthy (PList xs) = (xs \<noteq> [])"
| "py_truthy (PDict kvs) = (kvs \<noteq> [])"

text \<open>
  \<^verbatim>\<open>a == b\<close>: a boolean equals the integer 0 or 1, lists are compared item by item,
  dicts by their keys and the values under them.
\<close>

fun py_eq :: "pyval \<Rightarrow> pyval \<Rightarrow> bool" where
  "py_eq PNone PNone = True"
| "py_eq (PBool a) (PBool b) = (a = b)"
| "py_eq (PBool a) (PInt n) = ((if a then 1 else 0) = n)"
| "py_eq (PInt n) (PBool a) = (n = (if a then 1 else 0))"
| "py_eq (PInt m) (PInt n) = (m = n)"
| "py_eq (PStr s) (PStr t) = (s = t)"
| "py_eq (PList xs) (PList ys) = list_all2 py_eq xs ys"
| "py_eq (PDict a) (PDict b) =
     (set (map fst a) = set (map fst b) \<and>
      (\<forall>(k, x) \<in> set a. case map_of b k of None \<Rightarrow> False | Some y \<Rightarrow> py_eq x y))"
| "py_eq _ _ = False"

fun is_substring :: "string \<Rightarrow> string \<Rightarrow> bool" where
  "is_substring k [] = (k = [])"
| "is_substring k (x # xs) = (take (length k) (x # xs) = k \<or> is_substring k xs)"

text \<open>\<^verbatim>\<open>key in v\<close> for a string \<open>key\<close>.\<close>

fun py_contains :: "string \<Rightarrow> pyval \<Rightarrow> error + bool" where
  "py_contains key (PDict kvs) = Inr (key \<in> set (map fst kvs))"
| "py_contains key (PStr s) = Inr (is_substring key s)"
| "py_contains key (PList xs) = Inr (\<exists>x \<in> set xs. py_eq x (PStr key))"
| "py_contains key _ = Inl TypeError"

text \<open>\<^verbatim>\<open>v[key]\<close> for a string \<open>key\<close>.\<close>

fun py_getitem :: "pyval \<Rightarrow> string \<Rightarrow> error + pyval" where
  "py_getitem (PDict kvs) key = (case map_of kvs key of None \<Rightarrow> Inl KeyError | Some x \<Rightarrow> Inr x)"
| "py_getitem _ key = Inl TypeError"

subsection \<open>\<^verbatim>\<open>str\<close> of a value\<close>

definition digit_char :: "nat \<Rightarrow> char" where
  "digit_char d = ''0123456789abcdef'' ! (d mod 16)"

function dec_nat :: "nat \<Rightarrow> string" where
  "dec_nat n = (if n < 10 then [digit_char n] else dec_nat (n div 10) @ [digit_char (n mod 10)])"
  by pat_completeness auto
termination
  by (relation "measure id") auto

definition dec_int :: "int \<Rightarrow> string" where
  "dec_int i = (if i < 0 then CHR ''-'' # dec_nat (nat (- i)) else dec_nat (nat i))"

definition hex_escape :: "char \<Rightarrow> string" where
  "hex_escape c =
     (let n = (of_char c :: nat) in [backslash, CHR ''x'', digit_char (n div 16), digit_char (n mod 16)])"

definition repr_char :: "char \<Rightarrow> char \<Rightarrow> string" where
  "repr_char quote c =
     (let n = (of_char c :: nat)
      in if c = quote \<or> c = backslash then [backslash, c]
         else if n = 9 then [backslash, CHR ''t'']
         else if n = 10 then [backslash, CHR ''n'']
         else if n = 13 then [backslash, CHR ''r'']
         else if n < 32 \<or> n = 127 then hex_escape c
         else if n < 127 then [c]
         else if n \<le> 160 \<or> n = 173 then hex_escape c
         else [c])"

definition str_repr :: "string \<Rightarrow> string" where
  "str_repr s =
     (let quote = (if CHR 0x27 \<in> set s \<and> CHR 0x22 \<notin> set s then CHR 0x22 else CHR 0x27)
      in [quote] @ concat (map (repr_char quote) s) @ [quote])"

fun join :: "string \<Rightarrow> string list \<Rightarrow> string" where
  "join sep [] = []"
| "join sep [x] = x"
| "join sep (x # y # ys) = x @ sep @ join sep (y # ys)"

fun py_repr :: "pyval \<Rightarrow> string" where
  "py_repr PNone = ''None''"
| "py_repr (PBool b) = (if b then ''True'' else ''False'')"
| "py_repr (PInt n) = dec_int n"
| "py_repr (PStr s) = str_repr s"
| "py_repr (PList xs) = ''['' @ join '', '' (map py_repr xs) @ '']''"
| "py_repr (PDict kvs) =
     ''{'' @ join '', '' (map (\<lambda>(k, v). str_repr k @ '': '' @ py_repr v) kvs) @ ''}''"

definition py_str :: "pyval \<Rightarrow> string" where
  "py_str v = (case v of PStr s \<Rightarrow> s | _ \<Rightarrow> py_repr v)"

section \<open>Directories and sidecar files\<close>

text \<open>
  What a directory entry is: a subdirectory, a link whose target is missing
  (\<^verbatim>\<open>os.path.exists\<close> is false), or a file. A file carries what
  \<^verbatim>\<open>json.load\<close> does on it: \<open>Some v\<close> when it parses to \<open>v\<close>, \<open>None\<close> when
  it raises \<^verbatim>\<open>JSONDecodeError\<close>. A directory is its \<^verbatim>\<open>os.listdir\<close>, each name
  with its entry; \<^verbatim>\<open>os.walk\<close> yields, for every directory it visits, the root and the
  names that are not subdirectories, in the same order.
\<close>

datatype entry = Subdir | Dangling | Regular "pyval option"

type_synonym listing = "(string \<times> entry) list"

type_synonym walk = "(string \<times> listing) list"

definition walk_files :: "listing \<Rightarrow> string list" where
  "walk_files l = map fst (filter (\<lambda>(name, e). e \<noteq> Subdir) l)"

text \<open>The entry that the path \<^verbatim>\<open>os.path.join(directory, name)\<close> names.\<close>

definition entry_at :: "string \<Rightarrow> listing \<Rightarrow> string \<Rightarrow> entry option" where
  "entry_at directory l path =
     map_option snd (find (\<lambda>(name, e). path_join directory name = path) l)"

text \<open>
  \<^verbatim>\<open>load_metadata(media_file)\<close>: the dict \<^verbatim>\<open>{"path": ..., "data": ...}\<close> is the
  pair of its two values. Opening a directory raises an \<^verbatim>\<open>OSError\<close>; nothing catches
  it, nor the error of \<^verbatim>\<open>json.load\<close>.
\<close>

definition load_metadata :: "string \<Rightarrow> listing \<Rightarrow> string \<Rightarrow> error + (string \<times> pyval) option" where
  "load_metadata directory l base_name =
     (case find_metadata_file directory base_name (map fst l) of
        None \<Rightarrow> Inr None
      | Some metadata_file \<Rightarrow>
          if metadata_file = [] then Inr None
          else (case entry_at directory l metadata_file of
                  None \<Rightarrow> Inr None
                | Some Dangling \<Rightarrow> Inr None
                | Some Subdir \<Rightarrow> Inl IsADirectoryError
                | Some (Regular None) \<Rightarrow> Inl JSONDecodeError
                | Some (Regular (Some data)) \<Rightarrow> Inr (Some (metadata_file, data))))"

definition get_photo_taken_time :: "pyval \<Rightarrow> error + pyval" where
  "get_photo_taken_time metadata =
     (if py_truthy metadata then
        (case py_contains ''photoTakenTime'' metadata of
           Inl e \<Rightarrow> Inl e
         | Inr False \<Rightarrow> Inr PNone
         | Inr True \<Rightarrow>
             (case py_getitem metadata ''photoTakenTime'' of
                Inl e \<Rightarrow> Inl e
              | Inr t \<Rightarrow> py_getitem t ''timestamp''))
      else Inr PNone)"

text \<open>The result \<open>None\<close> is Python's \<^verbatim>\<open>None\<close>.\<close>

definition get_title :: "pyval \<Rightarrow> error + string option" where
  "get_title metadata =
     (if py_truthy metadata then
        (case py_contains ''title'' metadata of
           Inl e \<Rightarrow> Inl e
         | Inr False \<Rightarrow> Inr None
         | Inr True \<Rightarrow>
             (case py_getitem metadata ''title'' of
                Inl e \<Rightarrow> Inl e
              | Inr t \<Rightarrow> Inr (Some (lower (py_str t)))))
      else Inr None)"

section \<open>The directory grouper\<close>

record obj =
  base_name :: string
  photo_taken_time :: pyval
  file_path :: string
  json_path :: string

text \<open>
  \<^verbatim>\<open>name_to_files\<close> is a \<^verbatim>\<open>defaultdict(list)\<close>: the list of its items in insertion
  order. Its keys are titles: a string, or \<^verbatim>\<open>None\<close>.
\<close>

type_synonym grouping = "(string option \<times> obj list) list"

fun dict_append :: "'k \<Rightarrow> 'v \<Rightarrow> ('k \<times> 'v list) list \<Rightarrow> ('k \<times> 'v list) list" where
  "dict_append k v [] = [(k, [v])]"
| "dict_append k v ((k', vs) # rest) =
     (if k = k' then (k', vs @ [v]) # rest else (k', vs) # dict_append k v rest)"

text \<open>
  The body of the inner loop of \<^verbatim>\<open>group_files_by_name_and_metadata\<close>: the record
  built for \<open>file\<close> of directory \<open>root\<close> and the title it is stored under.
\<close>

definition group_file :: "string \<Rightarrow> listing \<Rightarrow> string \<Rightarrow> error + (string option \<times> obj)" where
  "group_file root l file =
     (let path = path_join root file;
          base = lower (fst (splitext file))
      in case load_metadata root l file of
           Inl e \<Rightarrow> Inl e
         | Inr None \<Rightarrow>
             Inr (Some base,
                  \<lparr>base_name = file, photo_taken_time = PStr [], file_path = path,
                   json_path = []\<rparr>)
         | Inr (Some (metadata_path, metadata_json)) \<Rightarrow>
             (case get_photo_taken_time metadata_json of
                Inl e \<Rightarrow> Inl e
              | Inr taken \<Rightarrow>
                  (case get_title metadata_json of
                     Inl e \<Rightarrow> Inl e
                   | Inr title \<Rightarrow>
                       Inr (title,
                            \<lparr>base_name = file, photo_taken_time = taken, file_path = path,
                             json_path = metadata_path\<rparr>))))"

fun group_dir :: "string \<Rightarrow> listing \<Rightarrow> string list \<Rightarrow> grouping \<Rightarrow> error + grouping" where
  "group_dir root l [] name_to_files = Inr name_to_files"
| "group_dir root l (file # files) name_to_files =
     (if endswith file ''.json'' then group_dir root l files name_to_files
      else (case group_file root l file of
              Inl e \<Rightarrow> Inl e
            | Inr (title, ob) \<Rightarrow> group_dir root l files (dict_append title ob name_to_files)))"

fun group_walk :: "walk \<Rightarrow> grouping \<Rightarrow> error + grouping" where
  "group_walk [] name_to_files = Inr name_to_files"
| "group_walk ((root, l) # dirs) name_to_files =
     (case group_dir root l (walk_files l) name_to_files of
        Inl e \<Rightarrow> Inl e
      | Inr name_to_files' \<Rightarrow> group_walk dirs name_to_files')"

text \<open>
  \<^verbatim>\<open>group_files_by_name_and_metadata(directory)\<close>; the argument is what
  \<^verbatim>\<open>os.walk(directory)\<close> yields.
\<close>

definition group_files_by_name_and_metadata :: "walk \<Rightarrow> error + grouping" where
  "group_files_by_name_and_metadata w = group_walk w []"

section \<open>The duplicate matcher\<close>

text \<open>
  The state of the loop of \<^verbatim>\<open>find_duplicates\<close>: the list \<^verbatim>\<open>duplicates\<close>, the
  counter \<^verbatim>\<open>count_media\<close> and the messages given to \<^verbatim>\<open>logging.info\<close>, each with
  the values it formats.
\<close>

datatype event =
  Duplicate_found string string
| Listed "string option" "obj list"
| Listed_both "string option" "obj list" "obj list"
| Found nat

record mstate =
  duplicates :: "string list"
  count_media :: nat
  logged :: "event list"

text \<open>The three appends, the increment and the message of a match of \<open>gp\<close> with \<open>alb\<close>.\<close>

definition mark :: "obj \<Rightarrow> obj \<Rightarrow> mstate \<Rightarrow> mstate" where
  "mark alb gp st =
     st\<lparr>duplicates := duplicates st @ [file_path gp, json_path gp],
        count_media := count_media st + 1,
        logged := logged st @ [Duplicate_found (file_path alb) (file_path gp)]\<rparr>"

definition info :: "event \<Rightarrow> mstate \<Rightarrow> mstate" where
  "info ev st = st\<lparr>logged := logged st @ [ev]\<rparr>"

text \<open>Several photos, one album file: \<^verbatim>\<open>for gp in photos_files\<close>.\<close>

fun many_to_one :: "obj \<Rightarrow> obj list \<Rightarrow> mstate \<Rightarrow> mstate" where
  "many_to_one alb [] st = st"
| "many_to_one alb (gp # gps) st =
     many_to_one alb gps
       (if py_eq (photo_taken_time alb) (photo_taken_time gp) then mark alb gp st else st)"

text \<open>One photo, several album files: \<^verbatim>\<open>for alb in album_files\<close>, without a break.\<close>

fun one_to_many :: "obj \<Rightarrow> obj list \<Rightarrow> mstate \<Rightarrow> mstate" where
  "one_to_many gp [] st = st"
| "one_to_many gp (alb # albs) st =
     one_to_many gp albs
       (if py_eq (photo_taken_time gp) (photo_taken_time alb) then mark alb gp st else st)"

text \<open>Several of both: the inner loop leaves at its first match.\<close>

fun scan_albums :: "obj \<Rightarrow> obj list \<Rightarrow> mstate \<Rightarrow> mstate" where
  "scan_albums gp [] st = st"
| "scan_albums gp (alb # albs) st =
     (if py_eq (photo_taken_time gp) (photo_taken_time alb) then mark alb gp st
      else scan_albums gp albs st)"

fun many_to_many :: "obj list \<Rightarrow> obj list \<Rightarrow> mstate \<Rightarrow> mstate" where
  "many_to_many album_files [] st = st"
| "many_to_many album_files (gp # gps) st =
     many_to_many album_files gps (scan_albums gp album_files st)"

text \<open>The body of the loop over \<^verbatim>\<open>photos_name_to_files.items()\<close>.\<close>

definition compare_title :: "grouping \<Rightarrow> string option \<Rightarrow> obj list \<Rightarrow> mstate \<Rightarrow> mstate" where
  "compare_title albums_name_to_files title photos_files st =
     (case map_of albums_name_to_files title of
        None \<Rightarrow> st
      | Some album_files \<Rightarrow>
          if length photos_files = 1 \<and> length album_files = 1 then
            mark (album_files ! 0) (photos_files ! 0) st
          else if length photos_files > 1 \<and> length album_files = 1 then
            many_to_one (album_files ! 0) photos_files (info (Listed title photos_files) st)
          else if length photos_files = 1 \<and> length album_files > 1 then
            one_to_many (photos_files ! 0) album_files (info (Listed title album_files) st)
          else if length photos_files > 1 \<and> length album_files > 1 then
            many_to_many album_files photos_files
              (info (Listed_both title album_files photos_files) st)
          else st)"

fun compare_all :: "grouping \<Rightarrow> grouping \<Rightarrow> mstate \<Rightarrow> mstate" where
  "compare_all albums_name_to_files [] st = st"
| "compare_all albums_name_to_files ((title, photos_files) # items) st =
     compare_all albums_name_to_files items
       (compare_title albums_name_to_files title photos_files st)"

text \<open>Step 2 of \<^verbatim>\<open>find_duplicates\<close>, from the two groupings.\<close>

definition match_groupings :: "grouping \<Rightarrow> grouping \<Rightarrow> mstate" where
  "match_groupings albums_name_to_files photos_name_to_files =
     compare_all albums_name_to_files photos_name_to_files
       \<lparr>duplicates = [], count_media = 0, logged = []\<rparr>"

text \<open>
  \<^verbatim>\<open>find_duplicates(albums_directory, photos_directory)\<close>, on what \<^verbatim>\<open>os.walk\<close> yields
  for the two directories: the list returned and the messages logged.
  \<^verbatim>\<open>list(set(duplicates))\<close> keeps one copy of every item, in an order Python does not
  fix; the model keeps the last copy of each.
\<close>

definition find_duplicates :: "walk \<Rightarrow> walk \<Rightarrow> error + (string list \<times> event list)" where
  "find_duplicates albums_directory photos_directory =
     (case group_files_by_name_and_metadata albums_directory of
        Inl e \<Rightarrow> Inl e
      | Inr albums_name_to_files \<Rightarrow>
          (case group_files_by_name_and_metadata photos_directory of
             Inl e \<Rightarrow> Inl e
           | Inr photos_name_to_files \<Rightarrow>
               (let st = match_groupings albums_name_to_files photos_name_to_files
                in Inr (remdups (duplicates st), logged st @ [Found (count_media st)]))))"

section \<open>The duplicate remover\<close>

text \<open>
  The files \<^verbatim>\<open>os.remove\<close> works on: a path names nothing, a file that can be removed, a
  file whose removal the system refuses (\<^verbatim>\<open>PermissionError\<close>), or a directory. Distinct
  strings name distinct files. A string with a NUL character is no path:
  \<^verbatim>\<open>os.remove\<close> raises \<^verbatim>\<open>ValueError\<close> on it, which is not an \<^verbatim>\<open>OSError\<close>.
\<close>

datatype node = Removable | Protected | Directory

type_synonym files = "string \<rightharpoonup> node"

definition os_remove :: "string \<Rightarrow> files \<Rightarrow> error + files" where
  "os_remove path fs =
     (if CHR 0x00 \<in> set path then Inl ValueError
      else (case fs path of
              None \<Rightarrow> Inl FileNotFoundError
            | Some Removable \<Rightarrow> Inr (fs(path := None))
            | Some Protected \<Rightarrow> Inl PermissionError
            | Some Directory \<Rightarrow> Inl IsADirectoryError))"

datatype outcome = Removing string | Failed_to_remove string error

record rstate =
  files :: files
  outcomes :: "outcome list"

text \<open>
  \<^verbatim>\<open>remove_duplicates(duplicates)\<close>: the exception that leaves the function, if any,
  and the state it leaves behind.
\<close>

fun remove_duplicates :: "string list \<Rightarrow> rstate \<Rightarrow> error option \<times> rstate" where
  "remove_duplicates [] st = (None, st)"
| "remove_duplicates (path # rest) st =
     (let st1 = st\<lparr>outcomes := outcomes st @ [Removing path]\<rparr>
      in case os_remove path (files st1) of
           Inr fs \<Rightarrow> remove_duplicates rest (st1\<lparr>files := fs\<rparr>)
         | Inl e \<Rightarrow>
             if is_OSError e
             then remove_duplicates rest
                    (st1\<lparr>outcomes := outcomes st1 @ [Failed_to_remove path e]\<rparr>)
             else (Some e, st1))"

section \<open>Notions used in the statements\<close>

text \<open>
  The definitions below are not part of the program: they name what the theorems speak
  about, and the concrete records, trees and files on which the program is run.
\<close>

text \<open>The two entries a marked record adds to \<^verbatim>\<open>duplicates\<close>.\<close>

definition paths_of :: "obj \<Rightarrow> string list" where
  "paths_of gp = [file_path gp, json_path gp]"

text \<open>The first album record, in list order, whose timestamp equals that of \<open>gp\<close>.\<close>

definition first_match :: "obj list \<Rightarrow> obj \<Rightarrow> obj option" where
  "first_match albs gp = find (\<lambda>alb. py_eq (photo_taken_time gp) (photo_taken_time alb)) albs"

text \<open>What one title adds to \<^verbatim>\<open>duplicates\<close> and to the log.\<close>

definition title_paths :: "grouping \<Rightarrow> string option \<Rightarrow> obj list \<Rightarrow> string list" where
  "title_paths albums title photos_files =
     duplicates (compare_title albums title photos_files
       \<lparr>duplicates = [], count_media = 0, logged = []\<rparr>)"

definition title_events :: "grouping \<Rightarrow> string option \<Rightarrow> obj list \<Rightarrow> event list" where
  "title_events albums title photos_files =
     logged (compare_title albums title photos_files
       \<lparr>duplicates = [], count_media = 0, logged = []\<rparr>)"


text \<open>The record \<open>ob\<close> is in the list that the grouping has for \<open>title\<close>.\<close>

definition recorded_under :: "grouping \<Rightarrow> string option \<Rightarrow> obj \<Rightarrow> bool" where
  "recorded_under g title ob = (case map_of g title of None \<Rightarrow> False | Some obs \<Rightarrow> ob \<in> set obs)"

text \<open>The files left when every removable path of \<open>ps\<close> is gone.\<close>

definition after_removal :: "files \<Rightarrow> string list \<Rightarrow> files" where
  "after_removal fs ps = (\<lambda>p. if p \<in> set ps \<and> fs p = Some Removable then None else fs p)"

subsection \<open>Concrete records and trees\<close>

text \<open>An album record and a photo record of the same name with different timestamps.\<close>

definition x_album :: obj where
  "x_album = \<lparr>base_name = ''a.jpg'', photo_taken_time = PStr ''100'', file_path = ''/albums/a.jpg'',
              json_path = ''/albums/a.jpg.json''\<rparr>"

definition x_photo :: obj where
  "x_photo = \<lparr>base_name = ''a.jpg'', photo_taken_time = PStr ''999'', file_path = ''/photos/a.jpg'',
              json_path = ''/photos/a.jpg.json''\<rparr>"

text \<open>
  A media file (no JSON: \<^verbatim>\<open>json.load\<close> would raise on it, and nothing reads it), and
  a sidecar with a title and a timestamp, as the export writes them.
\<close>

definition media :: entry where
  "media = Regular None"

definition sidecar :: "string \<Rightarrow> string \<Rightarrow> entry" where
  "sidecar title ts =
     Regular (Some (PDict [(''title'', PStr title),
                           (''photoTakenTime'', PDict [(''timestamp'', PStr ts)])]))"

text \<open>One album file, two photo files of the same base name, no sidecar.\<close>

definition c1_albums :: walk where
  "c1_albums = [(''/albums'', [(''a.jpg'', media)])]"

definition c1_photos :: walk where
  "c1_photos = [(''/photos'', [(''a.jpg'', media), (''a.png'', media)])]"

text \<open>Two album files and one photo file with the same title and timestamp.\<close>

definition c8_albums :: walk where
  "c8_albums = [(''/albums/x'', [(''a.jpg'', media), (''a.jpg.json'', sidecar ''a.jpg'' ''100'')]),
                (''/albums/y'', [(''a.jpg'', media), (''a.jpg.json'', sidecar ''a.jpg'' ''100'')])]"

definition c8_photos :: walk where
  "c8_photos = [(''/photos'', [(''a.jpg'', media), (''a.jpg.json'', sidecar ''a.jpg'' ''100'')])]"

text \<open>
  The record of \<^verbatim>\<open>a.jpg\<close> at a path, with a sidecar beside it that gives a timestamp;
  the record of a file without sidecar; the state in which the matcher starts.
\<close>

definition rec_at :: "string \<Rightarrow> string \<Rightarrow> obj" where
  "rec_at path ts =
     \<lparr>base_name = ''a.jpg'', photo_taken_time = PStr ts, file_path = path,
      json_path = path @ ''.json''\<rparr>"

definition bare_at :: "string \<Rightarrow> string \<Rightarrow> obj" where
  "bare_at dir name =
     \<lparr>base_name = name, photo_taken_time = PStr [], file_path = dir @ ''/'' @ name, json_path = []\<rparr>"

definition init :: mstate where
  "init = \<lparr>duplicates = [], count_media = 0, logged = []\<rparr>"

text \<open>The paths of all entries of a walked tree.\<close>

definition tree_paths :: "walk \<Rightarrow> string list" where
  "tree_paths w = concat (map (\<lambda>(root, l). map (\<lambda>(name, e). path_join root name) l) w)"

text \<open>One album file and one photo file of the same name, no sidecar.\<close>

definition c5_albums :: walk where
  "c5_albums = [(''/albums'', [(''a.jpg'', media)])]"

definition c5_photos :: walk where
  "c5_photos = [(''/photos'', [(''a.jpg'', media)])]"

text \<open>A photo file whose sidecar does not parse.\<close>

definition c2_albums :: walk where
  "c2_albums = [(''/albums'', [(''a.jpg'', media)])]"

definition c2_photos :: walk where
  "c2_photos = [(''/photos'', [(''a.jpg'', media), (''a.jpg.json'', Regular None)])]"

text \<open>
  A photo file whose sidecar has the empty title; a directory with a file without sidecar and
  a file with a titled sidecar, and its grouping; a photo file whose sidecar has no title.
\<close>

definition c3_photos :: walk where
  "c3_photos = [(''/photos'', [(''a.jpg'', media), (''a.jpg.json'', sidecar [] ''100'')])]"

definition c3_listing :: listing where
  "c3_listing =
     [(''B.PNG'', media), (''a.jpg'', media), (''a.jpg.json'', sidecar ''Holiday.JPG'' ''100'')]"

definition c3_grouping :: grouping where
  "c3_grouping =
     [(Some ''b'', [bare_at ''/photos'' ''B.PNG'']),
      (Some ''holiday.jpg'', [rec_at ''/photos/a.jpg'' ''100''])]"

definition untitled :: walk where
  "untitled =
     [(''/photos'', [(''c.jpg'', media),
        (''c.jpg.json'',
         Regular (Some (PDict [(''photoTakenTime'', PDict [(''timestamp'', PStr ''100'')])])))])]"

text \<open>Three files, and three strings to remove: a protected file, the empty string, a file.\<close>

definition c9_state :: rstate where
  "c9_state =
     \<lparr>files = [''/photos/a.jpg'' \<mapsto> Removable, ''/photos/locked.jpg'' \<mapsto> Protected,
                ''/photos/keep.jpg'' \<mapsto> Removable],
      outcomes = []\<rparr>"

definition c9_paths :: "string list" where
  "c9_paths = [''/photos/locked.jpg'', [], ''/photos/a.jpg'']"

section \<open>Evaluation on concrete inputs\<close>

text \<open>The equations that unfold the definitions on a concrete input.\<close>

lemmas char_eval = lower_char_def is_upper_def is_digit_def char_of_def bit_Suc_0_iff Let_def

lemmas resolver_eval =
  accepts_def case1_hit_def case2_hit_def case3_hit_def case4_hit_def truthy_str_def
  case2_def case3_def case4_def escape_def re_match_def counter_match_def splitext_def
  endswith_def path_join_def char_eval

lemmas grouper_eval =
  group_files_by_name_and_metadata_def group_file_def load_metadata_def entry_at_def
  walk_files_def get_title_def get_photo_taken_time_def py_str_def lower_def resolver_eval

lemmas matcher_eval =
  find_duplicates_def match_groupings_def compare_title_def mark_def info_def grouper_eval

lemmas sample_eval = media_def sidecar_def rec_at_def bare_at_def init_def

section \<open>Properties of the descriptor resolver\<close>

subsection \<open>Case folding\<close>

lemma of_char_lower_char:
  "(of_char (lower_char c) :: nat) = (if is_upper c then of_char c + 32 else of_char c)"
  by (auto simp: lower_char_def is_upper_def Let_def)


lemma lower_char_low [simp]:
  assumes "(of_char d :: nat) < 65"
  shows "lower_char d = d"
  using assms by (simp add: lower_char_def is_upper_def Let_def)







lemma lower_char_idem [simp]: "lower_char (lower_char c) = lower_char c"
proof (cases "is_upper c")
  case True
  then have "\<not> is_upper (lower_char c)"
    by (auto simp: is_upper_def [of "lower_char c"] of_char_lower_char Let_def)
       (auto simp: is_upper_def Let_def)
  then show ?thesis by (simp add: lower_char_def [of "lower_char c"])
next
  case False
  then show ?thesis by (simp add: lower_char_def)
qed








text \<open>
  Claim C4 as stated fails: for \<^verbatim>\<open>photo.jpg\<close>, a directory that lists
  \<^verbatim>\<open>photo.jpg.supplemental-metadata.json\<close> (pattern 2 only) before \<^verbatim>\<open>photo.jpg.json\<close>
  (pattern 1) gives the former; listed in the other order, it gives the latter.
\<close>

theorem listing_order_beats_pattern_priority:
  "case1_hit ''photo.jpg'' ''photo.jpg.json'' \<and>
   \<not> case1_hit ''photo.jpg'' ''photo.jpg.supplemental-metadata.json'' \<and>
   case2_hit ''photo.jpg'' ''photo.jpg.supplemental-metadata.json'' \<and>
   find_metadata_file ''/photos'' ''photo.jpg''
     [''photo.jpg.supplemental-metadata.json'', ''photo.jpg.json''] =
     Some ''/photos/photo.jpg.supplemental-metadata.json'' \<and>
   find_metadata_file ''/photos'' ''photo.jpg''
     [''photo.jpg.json'', ''photo.jpg.supplemental-metadata.json''] =
     Some ''/photos/photo.jpg.json''"
  by (simp add: resolver_eval)

text \<open>
  Claim C4, as amended. \<^verbatim>\<open>find_metadata_file\<close> returns the first entry, in the order
  of the directory listing, that ends with \<^verbatim>\<open>.json\<close> and matches one of the four
  patterns: the loop over the entries is the outer one, and the four patterns are tried on
  one entry at a time. A pattern of higher priority wins only on the same entry.
\<close>

theorem find_metadata_file_first_accepted:
  "find_metadata_file directory b listing =
   map_option (path_join directory)
     (find (\<lambda>file. endswith file ''.json'' \<and>
                    (case1_hit b file \<or> case2_hit b file \<or> case3_hit b file \<or> case4_hit b file))
        listing)"
  by (induction listing) (simp_all add: accepts_def)



section \<open>Properties of the matcher\<close>

subsection \<open>What the loops of the matcher append\<close>

lemma duplicates_mark [simp]:
  "duplicates (mark alb gp st) = duplicates st @ [file_path gp, json_path gp]"
  by (simp add: mark_def)

lemma count_media_mark [simp]: "count_media (mark alb gp st) = count_media st + 1"
  by (simp add: mark_def)

lemma logged_mark [simp]:
  "logged (mark alb gp st) = logged st @ [Duplicate_found (file_path alb) (file_path gp)]"
  by (simp add: mark_def)

lemma duplicates_info [simp]: "duplicates (info ev st) = duplicates st"
  by (simp add: info_def)

lemma count_media_info [simp]: "count_media (info ev st) = count_media st"
  by (simp add: info_def)

lemma logged_info [simp]: "logged (info ev st) = logged st @ [ev]"
  by (simp add: info_def)

lemma many_to_one_duplicates:
  "duplicates (many_to_one alb gps st) =
   duplicates st @
   concat (map paths_of (filter (\<lambda>gp. py_eq (photo_taken_time alb) (photo_taken_time gp)) gps))"
  by (induction gps arbitrary: st) (simp_all add: paths_of_def)

lemma one_to_many_duplicates:
  "duplicates (one_to_many gp albs st) =
   duplicates st @
   concat (map (\<lambda>alb. paths_of gp)
     (filter (\<lambda>alb. py_eq (photo_taken_time gp) (photo_taken_time alb)) albs))"
  by (induction albs arbitrary: st) (simp_all add: paths_of_def)

lemma scan_albums_find:
  "scan_albums gp albs st =
   (case find (\<lambda>alb. py_eq (photo_taken_time gp) (photo_taken_time alb)) albs of
      None \<Rightarrow> st
    | Some alb \<Rightarrow> mark alb gp st)"
  by (induction albs) simp_all

lemma find_Some_holds: "find P xs = Some x \<Longrightarrow> x \<in> set xs \<and> P x"
  by (induction xs) (auto split: if_splits)

lemma many_to_many_duplicates:
  "duplicates (many_to_many albs gps st) =
   duplicates st @
   concat (map paths_of
     (filter (\<lambda>gp. \<exists>alb \<in> set albs. py_eq (photo_taken_time gp) (photo_taken_time alb)) gps))"
proof (induction gps arbitrary: st)
  case Nil
  show ?case by simp
next
  case (Cons gp gps)
  show ?case
  proof (cases "find (\<lambda>alb. py_eq (photo_taken_time gp) (photo_taken_time alb)) albs")
    case None
    then have "\<not> (\<exists>alb \<in> set albs. py_eq (photo_taken_time gp) (photo_taken_time alb))"
      by (simp add: find_None_iff)
    with None show ?thesis by (simp add: Cons.IH scan_albums_find)
  next
    case (Some alb)
    then have "\<exists>alb \<in> set albs. py_eq (photo_taken_time gp) (photo_taken_time alb)"
      using find_Some_holds by fastforce
    with Some show ?thesis by (simp add: Cons.IH scan_albums_find paths_of_def)
  qed
qed

lemma many_to_many_logged:
  "logged (many_to_many albs gps st) =
   logged st @
   concat (map (\<lambda>gp. case first_match albs gp of
                        None \<Rightarrow> []
                      | Some alb \<Rightarrow> [Duplicate_found (file_path alb) (file_path gp)]) gps)"
  by (induction gps arbitrary: st) (simp_all add: scan_albums_find first_match_def split: option.splits)

lemma many_to_many_dups_first:
  "duplicates (many_to_many albs gps st) =
   duplicates st @
   concat (map (\<lambda>gp. case first_match albs gp of None \<Rightarrow> [] | Some alb \<Rightarrow> paths_of gp) gps)"
  by (induction gps arbitrary: st)
     (simp_all add: scan_albums_find first_match_def paths_of_def split: option.splits)

lemma many_to_many_count:
  "count_media (many_to_many albs gps st) =
   count_media st + length (filter (\<lambda>gp. first_match albs gp \<noteq> None) gps)"
  by (induction gps arbitrary: st) (simp_all add: scan_albums_find first_match_def split: option.splits)


lemma many_to_one_logged:
  "logged (many_to_one alb gps st) =
   logged st @
   map (\<lambda>gp. Duplicate_found (file_path alb) (file_path gp))
     (filter (\<lambda>gp. py_eq (photo_taken_time alb) (photo_taken_time gp)) gps)"
  by (induction gps arbitrary: st) simp_all

lemma one_to_many_logged:
  "logged (one_to_many gp albs st) =
   logged st @
   map (\<lambda>alb. Duplicate_found (file_path alb) (file_path gp))
     (filter (\<lambda>alb. py_eq (photo_taken_time gp) (photo_taken_time alb)) albs)"
  by (induction albs arbitrary: st) simp_all

lemma compare_title_duplicates:
  "duplicates (compare_title albums title photos_files st) =
   duplicates st @ title_paths albums title photos_files"
  by (simp add: title_paths_def compare_title_def many_to_one_duplicates
      one_to_many_duplicates many_to_many_duplicates split: option.splits)

lemma compare_title_logged:
  "logged (compare_title albums title photos_files st) =
   logged st @ title_events albums title photos_files"
  by (simp add: title_events_def compare_title_def many_to_one_logged
      one_to_many_logged many_to_many_logged split: option.splits)

lemma compare_all_duplicates:
  "duplicates (compare_all albums items st) =
   duplicates st @ concat (map (\<lambda>(title, photos_files). title_paths albums title photos_files) items)"
  by (induction items arbitrary: st) (auto simp: compare_title_duplicates)

lemma compare_all_logged:
  "logged (compare_all albums items st) =
   logged st @ concat (map (\<lambda>(title, photos_files). title_events albums title photos_files) items)"
  by (induction items arbitrary: st) (auto simp: compare_title_logged)

lemma match_groupings_duplicates:
  "set (duplicates (match_groupings albums photos)) =
   (\<Union>(title, photos_files) \<in> set photos. set (title_paths albums title photos_files))"
  by (auto simp: match_groupings_def compare_all_duplicates)

lemma match_groupings_logged:
  "set (logged (match_groupings albums photos)) =
   (\<Union>(title, photos_files) \<in> set photos. set (title_events albums title photos_files))"
  by (auto simp: match_groupings_def compare_all_logged)

lemma title_paths_subset:
  assumes "(title, photos_files) \<in> set photos"
  shows "set (title_paths albums title photos_files) \<subseteq> set (duplicates (match_groupings albums photos))"
  unfolding match_groupings_duplicates using assms by blast

lemma title_events_subset:
  assumes "(title, photos_files) \<in> set photos"
  shows "set (title_events albums title photos_files) \<subseteq> set (logged (match_groupings albums photos))"
  unfolding match_groupings_logged using assms by blast

text \<open>
  Claim C6. A title with exactly one album record and exactly one photo record: the step of
  the loop is the marking of the photo record, whatever the two timestamps are; its file
  path and its descriptor path are in \<^verbatim>\<open>duplicates\<close>, and the match is logged.
\<close>

theorem one_to_one_unconditional:
  assumes "(title, [gp]) \<in> set photos" and "map_of albums title = Some [alb]"
  shows "compare_title albums title [gp] st = mark alb gp st \<and>
         file_path gp \<in> set (duplicates (match_groupings albums photos)) \<and>
         json_path gp \<in> set (duplicates (match_groupings albums photos)) \<and>
         Duplicate_found (file_path alb) (file_path gp) \<in> set (logged (match_groupings albums photos))"
proof -
  have step: "compare_title albums title [gp] s = mark alb gp s" for s
    using assms(2) by (simp add: compare_title_def)
  have "title_paths albums title [gp] = [file_path gp, json_path gp]"
    by (simp add: title_paths_def step)
  then have paths: "{file_path gp, json_path gp} \<subseteq> set (duplicates (match_groupings albums photos))"
    using title_paths_subset [OF assms(1), of albums] by simp
  have "title_events albums title [gp] = [Duplicate_found (file_path alb) (file_path gp)]"
    by (simp add: title_events_def step)
  then have "Duplicate_found (file_path alb) (file_path gp) \<in> set (logged (match_groupings albums photos))"
    using title_events_subset [OF assms(1), of albums] by simp
  with paths step show ?thesis by simp
qed

theorem one_to_one_unconditional_witness:
  "\<not> py_eq (photo_taken_time x_photo) (photo_taken_time x_album) \<and>
   ''/photos/a.jpg'' \<in> set (duplicates (match_groupings [(Some ''a'', [x_album])] [(Some ''a'', [x_photo])])) \<and>
   ''/photos/a.jpg.json'' \<in> set (duplicates (match_groupings [(Some ''a'', [x_album])] [(Some ''a'', [x_photo])])) \<and>
   Duplicate_found ''/albums/a.jpg'' ''/photos/a.jpg''
     \<in> set (logged (match_groupings [(Some ''a'', [x_album])] [(Some ''a'', [x_photo])]))"
  using one_to_one_unconditional [of "Some ''a''" x_photo "[(Some ''a'', [x_photo])]"
      "[(Some ''a'', [x_album])]" x_album]
  by (simp add: x_album_def x_photo_def)

text \<open>
  Claim C7. A title with several album records and several photo records: every photo
  record is compared with the album records in list order, and the comparison stops at the
  first album record whose timestamp equals its own (\<open>first_match\<close>). So a photo record
  adds its two paths at most once, the log names the first matching album record only, and
  the counter grows by one for each photo record that has a match.
\<close>

theorem many_to_many_first_match:
  assumes "map_of albums title = Some album_files"
    and "length photos_files > 1" and "length album_files > 1"
  shows "duplicates (compare_title albums title photos_files st) =
           duplicates st @
           concat (map (\<lambda>gp. case first_match album_files gp of
                                None \<Rightarrow> [] | Some alb \<Rightarrow> paths_of gp) photos_files) \<and>
         logged (compare_title albums title photos_files st) =
           logged st @ [Listed_both title album_files photos_files] @
           concat (map (\<lambda>gp. case first_match album_files gp of
                                None \<Rightarrow> []
                              | Some alb \<Rightarrow> [Duplicate_found (file_path alb) (file_path gp)])
                    photos_files) \<and>
         count_media (compare_title albums title photos_files st) =
           count_media st + length (filter (\<lambda>gp. first_match album_files gp \<noteq> None) photos_files)"
proof -
  have "compare_title albums title photos_files st =
        many_to_many album_files photos_files
          (info (Listed_both title album_files photos_files) st)"
    using assms by (simp add: compare_title_def)
  then show ?thesis
    by (simp add: many_to_many_dups_first many_to_many_logged many_to_many_count)
qed

theorem many_to_many_first_match_witness:
  "duplicates (compare_title
      [(Some ''a'', [rec_at ''/albums/x/a.jpg'' ''100'', rec_at ''/albums/y/a.jpg'' ''200'',
                     rec_at ''/albums/z/a.jpg'' ''200''])]
      (Some ''a'') [rec_at ''/photos/u/a.jpg'' ''200'', rec_at ''/photos/v/a.jpg'' ''300''] init) =
     [''/photos/u/a.jpg'', ''/photos/u/a.jpg.json''] \<and>
   logged (compare_title
      [(Some ''a'', [rec_at ''/albums/x/a.jpg'' ''100'', rec_at ''/albums/y/a.jpg'' ''200'',
                     rec_at ''/albums/z/a.jpg'' ''200''])]
      (Some ''a'') [rec_at ''/photos/u/a.jpg'' ''200'', rec_at ''/photos/v/a.jpg'' ''300''] init) =
     [Listed_both (Some ''a'')
        [rec_at ''/albums/x/a.jpg'' ''100'', rec_at ''/albums/y/a.jpg'' ''200'',
         rec_at ''/albums/z/a.jpg'' ''200'']
        [rec_at ''/photos/u/a.jpg'' ''200'', rec_at ''/photos/v/a.jpg'' ''300''],
      Duplicate_found ''/albums/y/a.jpg'' ''/photos/u/a.jpg''] \<and>
   count_media (compare_title
      [(Some ''a'', [rec_at ''/albums/x/a.jpg'' ''100'', rec_at ''/albums/y/a.jpg'' ''200'',
                     rec_at ''/albums/z/a.jpg'' ''200''])]
      (Some ''a'') [rec_at ''/photos/u/a.jpg'' ''200'', rec_at ''/photos/v/a.jpg'' ''300''] init) = 1"
  using many_to_many_first_match [of
      "[(Some ''a'', [rec_at ''/albums/x/a.jpg'' ''100'', rec_at ''/albums/y/a.jpg'' ''200'',
                      rec_at ''/albums/z/a.jpg'' ''200''])]"
      "Some ''a''"
      "[rec_at ''/albums/x/a.jpg'' ''100'', rec_at ''/albums/y/a.jpg'' ''200'',
        rec_at ''/albums/z/a.jpg'' ''200'']"
      "[rec_at ''/photos/u/a.jpg'' ''200'', rec_at ''/photos/v/a.jpg'' ''300'']" init]
  by (simp add: first_match_def paths_of_def sample_eval)

text \<open>
  Claim C8. Whenever the two trees are grouped, \<^verbatim>\<open>find_duplicates\<close> returns a list
  without repetition that has the entries of \<^verbatim>\<open>duplicates\<close>: a path appended several
  times (a photo record that matches several album records, in the branch without a
  break) is returned once.
\<close>

theorem find_duplicates_distinct:
  assumes "group_files_by_name_and_metadata albums_directory = Inr albums"
    and "group_files_by_name_and_metadata photos_directory = Inr photos"
  shows "\<exists>dups evs. find_duplicates albums_directory photos_directory = Inr (dups, evs) \<and>
           distinct dups \<and> set dups = set (duplicates (match_groupings albums photos))"
  using assms by (simp add: find_duplicates_def Let_def)

lemma c8_albums_grouping:
  "group_files_by_name_and_metadata c8_albums =
   Inr [(Some ''a.jpg'', [rec_at ''/albums/x/a.jpg'' ''100'', rec_at ''/albums/y/a.jpg'' ''100''])]"
  by (simp add: c8_albums_def sample_eval grouper_eval)

lemma c8_photos_grouping:
  "group_files_by_name_and_metadata c8_photos =
   Inr [(Some ''a.jpg'', [rec_at ''/photos/a.jpg'' ''100''])]"
  by (simp add: c8_photos_def sample_eval grouper_eval)

lemma c8_matches:
  "duplicates (match_groupings
     [(Some ''a.jpg'', [rec_at ''/albums/x/a.jpg'' ''100'', rec_at ''/albums/y/a.jpg'' ''100''])]
     [(Some ''a.jpg'', [rec_at ''/photos/a.jpg'' ''100''])]) =
   [''/photos/a.jpg'', ''/photos/a.jpg.json'', ''/photos/a.jpg'', ''/photos/a.jpg.json'']"
  by (simp add: match_groupings_def compare_title_def mark_def info_def sample_eval)

theorem find_duplicates_distinct_witness:
  "duplicates (match_groupings
     [(Some ''a.jpg'', [rec_at ''/albums/x/a.jpg'' ''100'', rec_at ''/albums/y/a.jpg'' ''100''])]
     [(Some ''a.jpg'', [rec_at ''/photos/a.jpg'' ''100''])]) =
   [''/photos/a.jpg'', ''/photos/a.jpg.json'', ''/photos/a.jpg'', ''/photos/a.jpg.json''] \<and>
   (\<exists>dups evs. find_duplicates c8_albums c8_photos = Inr (dups, evs) \<and> distinct dups \<and>
      set dups = {''/photos/a.jpg'', ''/photos/a.jpg.json''})"
proof -
  have "set [''/photos/a.jpg'', ''/photos/a.jpg.json'', ''/photos/a.jpg'', ''/photos/a.jpg.json''] =
        {''/photos/a.jpg'', ''/photos/a.jpg.json''}"
    by auto
  then show ?thesis
    using find_duplicates_distinct [OF c8_albums_grouping c8_photos_grouping] c8_matches
    by simp
qed


lemma compare_title_many_to_one:
  assumes "map_of albums title = Some album_files"
    and "1 < length photos_files" and "length album_files = 1"
  shows "compare_title albums title photos_files st =
         many_to_one (album_files ! 0) photos_files (info (Listed title photos_files) st)"
  using assms by (simp add: compare_title_def)

lemma compare_title_one_to_many:
  assumes "map_of albums title = Some album_files"
    and "length photos_files = 1" and "1 < length album_files"
  shows "compare_title albums title photos_files st =
         one_to_many (photos_files ! 0) album_files (info (Listed title album_files) st)"
  using assms by (simp add: compare_title_def)

lemma compare_title_many_to_many:
  assumes "map_of albums title = Some album_files"
    and "1 < length photos_files" and "1 < length album_files"
  shows "compare_title albums title photos_files st =
         many_to_many album_files photos_files
           (info (Listed_both title album_files photos_files) st)"
  using assms by (simp add: compare_title_def)

lemma group_file_no_descriptor:
  assumes "load_metadata root l file = Inr None"
  shows "group_file root l file =
         Inr (Some (lower (fst (splitext file))),
              \<lparr>base_name = file, photo_taken_time = PStr [], file_path = path_join root file,
               json_path = []\<rparr>)"
  using assms by (simp add: group_file_def)

lemma get_photo_taken_time_missing:
  assumes "''photoTakenTime'' \<notin> set (map fst kvs)"
  shows "get_photo_taken_time (PDict kvs) = Inr PNone"
  using assms by (simp add: get_photo_taken_time_def)

text \<open>
  Claim C1, as amended. In the three branches with more than one record on a side, a photo
  record is marked exactly when the value it carries as timestamp equals (\<^verbatim>\<open>==\<close>) the
  value carried by the album record it is compared with: the only album record, or some
  album record of the list. A record without descriptor carries the empty string, a record
  whose descriptor has no \<^verbatim>\<open>photoTakenTime\<close> carries \<^verbatim>\<open>None\<close>; each of the two values
  equals itself and not the other, so two records without timestamp match when both carry
  the same one.
\<close>

theorem timestamp_equality_decides:
  assumes "map_of albums title = Some album_files"
  shows
    "(1 < length photos_files \<and> length album_files = 1 \<longrightarrow>
        duplicates (compare_title albums title photos_files st) =
        duplicates st @
        concat (map paths_of
          (filter (\<lambda>gp. py_eq (photo_taken_time (album_files ! 0)) (photo_taken_time gp))
             photos_files))) \<and>
     (length photos_files = 1 \<and> 1 < length album_files \<longrightarrow>
        duplicates (compare_title albums title photos_files st) =
        duplicates st @
        concat (map (\<lambda>alb. paths_of (photos_files ! 0))
          (filter (\<lambda>alb. py_eq (photo_taken_time (photos_files ! 0)) (photo_taken_time alb))
             album_files))) \<and>
     (1 < length photos_files \<and> 1 < length album_files \<longrightarrow>
        duplicates (compare_title albums title photos_files st) =
        duplicates st @
        concat (map paths_of
          (filter (\<lambda>gp. \<exists>alb \<in> set album_files.
                          py_eq (photo_taken_time gp) (photo_taken_time alb))
             photos_files))) \<and>
     (load_metadata root l file = Inr None \<longrightarrow>
        (\<exists>title' ob. group_file root l file = Inr (title', ob) \<and> photo_taken_time ob = PStr [])) \<and>
     (''photoTakenTime'' \<notin> set (map fst kvs) \<longrightarrow> get_photo_taken_time (PDict kvs) = Inr PNone) \<and>
     py_eq (PStr []) (PStr []) \<and> py_eq PNone PNone \<and>
     \<not> py_eq (PStr []) PNone \<and> \<not> py_eq PNone (PStr [])"
  using assms
  by (simp add: compare_title_many_to_one compare_title_one_to_many compare_title_many_to_many
      many_to_one_duplicates one_to_many_duplicates many_to_many_duplicates
      group_file_no_descriptor get_photo_taken_time_missing)

theorem timestamp_equality_decides_witness:
  "duplicates (compare_title [(Some ''a'', [bare_at ''/albums'' ''a.jpg''])] (Some ''a'')
      [bare_at ''/photos'' ''a.jpg'', bare_at ''/photos'' ''a.png''] init) =
     [''/photos/a.jpg'', [], ''/photos/a.png'', []] \<and>
   duplicates (compare_title
      [(Some ''a'', [rec_at ''/albums/x/a.jpg'' ''100'', rec_at ''/albums/y/a.jpg'' ''200''])]
      (Some ''a'') [rec_at ''/photos/a.jpg'' ''200''] init) =
     [''/photos/a.jpg'', ''/photos/a.jpg.json''] \<and>
   duplicates (compare_title
      [(Some ''a'', [rec_at ''/albums/x/a.jpg'' ''100'', rec_at ''/albums/y/a.jpg'' ''200''])]
      (Some ''a'') [rec_at ''/photos/u/a.jpg'' ''200'', rec_at ''/photos/v/a.jpg'' ''300''] init) =
     [''/photos/u/a.jpg'', ''/photos/u/a.jpg.json'']"
  using
    timestamp_equality_decides [of "[(Some ''a'', [bare_at ''/albums'' ''a.jpg''])]" "Some ''a''"
      "[bare_at ''/albums'' ''a.jpg'']"
      "[bare_at ''/photos'' ''a.jpg'', bare_at ''/photos'' ''a.png'']" init]
    timestamp_equality_decides [of
      "[(Some ''a'', [rec_at ''/albums/x/a.jpg'' ''100'', rec_at ''/albums/y/a.jpg'' ''200''])]"
      "Some ''a''" "[rec_at ''/albums/x/a.jpg'' ''100'', rec_at ''/albums/y/a.jpg'' ''200'']"
      "[rec_at ''/photos/a.jpg'' ''200'']" init]
    timestamp_equality_decides [of
      "[(Some ''a'', [rec_at ''/albums/x/a.jpg'' ''100'', rec_at ''/albums/y/a.jpg'' ''200''])]"
      "Some ''a''" "[rec_at ''/albums/x/a.jpg'' ''100'', rec_at ''/albums/y/a.jpg'' ''200'']"
      "[rec_at ''/photos/u/a.jpg'' ''200'', rec_at ''/photos/v/a.jpg'' ''300'']" init]
  by (simp add: paths_of_def sample_eval)

text \<open>
  Claim C1 as stated fails: one album file and two photo files of the same name, none with a
  descriptor. All three records carry the empty string as timestamp, and both photo files
  are returned as duplicates.
\<close>

theorem absent_timestamps_match:
  "group_files_by_name_and_metadata c1_albums = Inr [(Some ''a'', [bare_at ''/albums'' ''a.jpg''])] \<and>
   group_files_by_name_and_metadata c1_photos =
     Inr [(Some ''a'', [bare_at ''/photos'' ''a.jpg'', bare_at ''/photos'' ''a.png''])] \<and>
   photo_taken_time (bare_at ''/albums'' ''a.jpg'') = PStr [] \<and>
   photo_taken_time (bare_at ''/photos'' ''a.jpg'') = PStr [] \<and>
   photo_taken_time (bare_at ''/photos'' ''a.png'') = PStr [] \<and>
   find_duplicates c1_albums c1_photos =
     Inr ([''/photos/a.jpg'', ''/photos/a.png'', []],
          [Listed (Some ''a'') [bare_at ''/photos'' ''a.jpg'', bare_at ''/photos'' ''a.png''],
           Duplicate_found ''/albums/a.jpg'' ''/photos/a.jpg'',
           Duplicate_found ''/albums/a.jpg'' ''/photos/a.png'', Found 2])"
  by (simp add: c1_albums_def c1_photos_def sample_eval matcher_eval)

text \<open>
  Claim C5. One album file and one photo file of the same name, without descriptors: the
  list returned holds the empty string, the \<^verbatim>\<open>json_path\<close> of a record without
  descriptor, which is no path of the photos tree.
\<close>

theorem empty_descriptor_path_returned:
  "find_duplicates c5_albums c5_photos =
     Inr ([''/photos/a.jpg'', []], [Duplicate_found ''/albums/a.jpg'' ''/photos/a.jpg'', Found 1]) \<and>
   tree_paths c5_photos = [''/photos/a.jpg'']"
  by (simp add: c5_albums_def c5_photos_def tree_paths_def sample_eval matcher_eval)

text \<open>
  Claim C2. A photo file whose sidecar does not parse: \<^verbatim>\<open>load_metadata\<close> raises
  \<^verbatim>\<open>JSONDecodeError\<close>, and so do the grouping of the tree and \<^verbatim>\<open>find_duplicates\<close>.
\<close>

theorem unparsable_sidecar_raises:
  "load_metadata ''/photos'' [(''a.jpg'', media), (''a.jpg.json'', Regular None)] ''a.jpg'' =
     Inl JSONDecodeError \<and>
   group_files_by_name_and_metadata c2_photos = Inl JSONDecodeError \<and>
   find_duplicates c2_albums c2_photos = Inl JSONDecodeError"
  by (simp add: c2_albums_def c2_photos_def sample_eval matcher_eval)

section \<open>Properties of the directory grouper\<close>

lemma map_of_dict_append_same:
  "map_of (dict_append k v g) k = Some ((case map_of g k of None \<Rightarrow> [] | Some vs \<Rightarrow> vs) @ [v])"
  by (induction g) auto

lemma map_of_dict_append_other:
  "k' \<noteq> k \<Longrightarrow> map_of (dict_append k v g) k' = map_of g k'"
  by (induction g) auto

lemma recorded_dict_append: "recorded_under (dict_append k v g) k v"
  by (simp add: recorded_under_def map_of_dict_append_same)

lemma recorded_dict_append_mono:
  assumes "recorded_under g k' ob"
  shows "recorded_under (dict_append k v g) k' ob"
proof (cases "k' = k")
  case True
  with assms show ?thesis
    by (auto simp: recorded_under_def map_of_dict_append_same split: option.splits)
next
  case False
  with assms show ?thesis
    by (simp add: recorded_under_def map_of_dict_append_other)
qed

lemma group_dir_mono:
  assumes "group_dir root l files' g = Inr g'" and "recorded_under g k ob"
  shows "recorded_under g' k ob"
  using assms
proof (induction files' arbitrary: g)
  case Nil
  then show ?case by simp
next
  case (Cons f fs)
  show ?case
  proof (cases "endswith f ''.json''")
    case True
    with Cons show ?thesis by simp
  next
    case False
    with Cons.prems(1) obtain title ob' where gf: "group_file root l f = Inr (title, ob')"
      and rest: "group_dir root l fs (dict_append title ob' g) = Inr g'"
      by (auto split: sum.splits)
    show ?thesis
      using Cons.IH [OF rest] recorded_dict_append_mono [OF Cons.prems(2)] by blast
  qed
qed

lemma group_dir_records:
  assumes "group_dir root l files' g = Inr g'" and "file \<in> set files'"
    and "\<not> endswith file ''.json''"
  shows "\<exists>title ob. group_file root l file = Inr (title, ob) \<and> recorded_under g' title ob"
  using assms
proof (induction files' arbitrary: g)
  case Nil
  then show ?case by simp
next
  case (Cons f fs)
  show ?case
  proof (cases "endswith f ''.json''")
    case True
    with Cons.prems have "group_dir root l fs g = Inr g'" and "file \<in> set fs"
      by auto
    then show ?thesis using Cons.IH Cons.prems(3) by blast
  next
    case False
    with Cons.prems(1) obtain title ob' where gf: "group_file root l f = Inr (title, ob')"
      and rest: "group_dir root l fs (dict_append title ob' g) = Inr g'"
      by (auto split: sum.splits)
    show ?thesis
    proof (cases "file = f")
      case True
      have "recorded_under g' title ob'"
        using group_dir_mono [OF rest recorded_dict_append] .
      with gf True show ?thesis by blast
    next
      case False
      with Cons.prems(2) have "file \<in> set fs" by simp
      then show ?thesis using Cons.IH [OF rest _ Cons.prems(3)] by blast
    qed
  qed
qed

lemma group_walk_mono:
  assumes "group_walk w g = Inr g'" and "recorded_under g k ob"
  shows "recorded_under g' k ob"
  using assms
proof (induction w arbitrary: g)
  case Nil
  then show ?case by simp
next
  case (Cons d ds)
  obtain root l where d: "d = (root, l)" by (cases d)
  from Cons.prems(1) obtain g1 where first: "group_dir root l (walk_files l) g = Inr g1"
    and rest: "group_walk ds g1 = Inr g'"
    by (auto simp: d split: sum.splits)
  show ?case
    using Cons.IH [OF rest] group_dir_mono [OF first Cons.prems(2)] by blast
qed

lemma group_walk_records:
  assumes "group_walk w g = Inr g'" and "(root, l) \<in> set w" and "file \<in> set (walk_files l)"
    and "\<not> endswith file ''.json''"
  shows "\<exists>title ob. group_file root l file = Inr (title, ob) \<and> recorded_under g' title ob"
  using assms
proof (induction w arbitrary: g)
  case Nil
  then show ?case by simp
next
  case (Cons d ds)
  obtain root' l' where d: "d = (root', l')" by (cases d)
  from Cons.prems(1) obtain g1 where first: "group_dir root' l' (walk_files l') g = Inr g1"
    and rest: "group_walk ds g1 = Inr g'"
    by (auto simp: d split: sum.splits)
  show ?case
  proof (cases "(root, l) = d")
    case True
    then have "root' = root" and "l' = l" by (simp_all add: d)
    with first Cons.prems(3,4) obtain title ob
      where "group_file root l file = Inr (title, ob)" and "recorded_under g1 title ob"
      using group_dir_records by blast
    then show ?thesis using group_walk_mono [OF rest] by blast
  next
    case False
    with Cons.prems(2) have "(root, l) \<in> set ds" by auto
    then show ?thesis using Cons.IH [OF rest _ Cons.prems(3,4)] by blast
  qed
qed

lemma get_title_present:
  assumes "map_of kvs ''title'' = Some t"
  shows "get_title (PDict kvs) = Inr (Some (lower (py_str t)))"
proof -
  have "''title'' \<in> set (map fst kvs)"
    using assms by (metis map_of_eq_None_iff option.distinct(1) set_map)
  moreover from this have "kvs \<noteq> []" by auto
  ultimately show ?thesis using assms by (simp add: get_title_def)
qed

lemma group_file_result:
  assumes "group_file root l file = Inr (title, ob)"
  shows "file_path ob = path_join root file \<and>
         (load_metadata root l file = Inr None \<longrightarrow> title = Some (lower (fst (splitext file)))) \<and>
         (\<forall>p kvs t. load_metadata root l file = Inr (Some (p, PDict kvs)) \<and>
                    map_of kvs ''title'' = Some t \<longrightarrow>
                    title = Some (lower (py_str t)))"
  using assms
  by (auto simp: group_file_def Let_def get_title_present split: sum.splits option.splits)

text \<open>
  Claim C3, as amended. When the grouping of a tree succeeds, every walked file that does not
  end with \<^verbatim>\<open>.json\<close> is recorded, with its path, under the title that the loop body
  computes for it. That title is the base name without extension in lower case when no
  descriptor is loaded, and \<^verbatim>\<open>str(title).lower()\<close> when the descriptor is a dict with a
  \<^verbatim>\<open>title\<close> entry, whatever that entry is, the empty string included.
\<close>

theorem group_key_of_file:
  assumes "group_files_by_name_and_metadata w = Inr g" and "(root, l) \<in> set w"
    and "file \<in> set (walk_files l)" and "\<not> endswith file ''.json''"
  shows "\<exists>title ob. group_file root l file = Inr (title, ob) \<and> recorded_under g title ob \<and>
           file_path ob = path_join root file \<and>
           (load_metadata root l file = Inr None \<longrightarrow>
              title = Some (lower (fst (splitext file)))) \<and>
           (\<forall>p kvs t. load_metadata root l file = Inr (Some (p, PDict kvs)) \<and>
                      map_of kvs ''title'' = Some t \<longrightarrow>
                      title = Some (lower (py_str t)))"
proof -
  from assms obtain title ob where gf: "group_file root l file = Inr (title, ob)"
    and rec: "recorded_under g title ob"
    unfolding group_files_by_name_and_metadata_def using group_walk_records by blast
  show ?thesis
    using gf rec group_file_result [OF gf] by blast
qed

lemma c3_grouped:
  "group_files_by_name_and_metadata [(''/photos'', c3_listing)] = Inr c3_grouping"
  by (simp add: c3_listing_def c3_grouping_def sample_eval grouper_eval)

lemma c3_bare: "group_file ''/photos'' c3_listing ''B.PNG'' = Inr (Some ''b'', bare_at ''/photos'' ''B.PNG'')"
  by (simp add: c3_listing_def sample_eval grouper_eval)

lemma c3_titled:
  "group_file ''/photos'' c3_listing ''a.jpg'' = Inr (Some ''holiday.jpg'', rec_at ''/photos/a.jpg'' ''100'')"
  by (simp add: c3_listing_def sample_eval grouper_eval)

theorem group_key_of_file_witness:
  "recorded_under c3_grouping (Some ''b'') (bare_at ''/photos'' ''B.PNG'') \<and>
   recorded_under c3_grouping (Some ''holiday.jpg'') (rec_at ''/photos/a.jpg'' ''100'')"
proof -
  have dir: "(''/photos'', c3_listing) \<in> set [(''/photos'', c3_listing)]"
    by simp
  have files: "''B.PNG'' \<in> set (walk_files c3_listing)" "''a.jpg'' \<in> set (walk_files c3_listing)"
    by (simp_all add: c3_listing_def walk_files_def sample_eval)
  have media: "\<not> endswith ''B.PNG'' ''.json''" "\<not> endswith ''a.jpg'' ''.json''"
    by (simp_all add: endswith_def)
  have "\<exists>title ob. group_file ''/photos'' c3_listing ''B.PNG'' = Inr (title, ob) \<and>
          recorded_under c3_grouping title ob"
    using group_key_of_file [OF c3_grouped dir files(1) media(1)] by blast
  then have first: "recorded_under c3_grouping (Some ''b'') (bare_at ''/photos'' ''B.PNG'')"
    by (simp add: c3_bare)
  have "\<exists>title ob. group_file ''/photos'' c3_listing ''a.jpg'' = Inr (title, ob) \<and>
          recorded_under c3_grouping title ob"
    using group_key_of_file [OF c3_grouped dir files(2) media(2)] by blast
  then have "recorded_under c3_grouping (Some ''holiday.jpg'') (rec_at ''/photos/a.jpg'' ''100'')"
    by (simp add: c3_titled)
  with first show ?thesis by simp
qed

text \<open>
  Claim C3 as stated fails: \<^verbatim>\<open>a.jpg\<close> with a descriptor whose title is the empty string
  is recorded under the empty string, not under \<^verbatim>\<open>a\<close>.
\<close>

theorem empty_title_is_the_key:
  "group_files_by_name_and_metadata c3_photos = Inr [(Some [], [rec_at ''/photos/a.jpg'' ''100''])] \<and>
   lower (fst (splitext ''a.jpg'')) = ''a''"
  by (simp add: c3_photos_def sample_eval grouper_eval)

text \<open>
  A descriptor without a \<^verbatim>\<open>title\<close> entry: \<^verbatim>\<open>get_title\<close> returns \<^verbatim>\<open>None\<close>, and
  \<^verbatim>\<open>None\<close> is the key.
\<close>

lemma descriptor_without_title:
  "group_files_by_name_and_metadata untitled =
   Inr [(None, [\<lparr>base_name = ''c.jpg'', photo_taken_time = PStr ''100'',
                  file_path = ''/photos/c.jpg'', json_path = ''/photos/c.jpg.json''\<rparr>])]"
  by (simp add: untitled_def sample_eval grouper_eval)

section \<open>Properties of the duplicate remover\<close>

lemma os_remove_cases:
  assumes "CHR 0x00 \<notin> set p"
  shows "(fs p = Some Removable \<and> os_remove p fs = Inr (fs(p := None))) \<or>
         (fs p \<noteq> Some Removable \<and> (\<exists>e. is_OSError e \<and> os_remove p fs = Inl e))"
  using assms by (auto simp: os_remove_def is_OSError_def split: option.splits node.splits)

lemma os_remove_missing:
  assumes "CHR 0x00 \<notin> set p" and "fs p = None"
  shows "os_remove p fs = Inl FileNotFoundError"
  using assms by (simp add: os_remove_def)

lemma remove_step_removable:
  assumes "CHR 0x00 \<notin> set p" and "files st p = Some Removable"
  shows "remove_duplicates (p # rest) st =
         remove_duplicates rest
           (st\<lparr>outcomes := outcomes st @ [Removing p], files := (files st)(p := None)\<rparr>)"
  using assms os_remove_cases [OF assms(1), of "files st"] by (auto simp: Let_def)

lemma remove_step_failing:
  assumes "CHR 0x00 \<notin> set p" and "files st p \<noteq> Some Removable"
  shows "\<exists>e. is_OSError e \<and> os_remove p (files st) = Inl e \<and>
           remove_duplicates (p # rest) st =
           remove_duplicates rest
             (st\<lparr>outcomes := outcomes st @ [Removing p, Failed_to_remove p e]\<rparr>)"
  using assms os_remove_cases [OF assms(1), of "files st"] by (auto simp: Let_def)

lemma after_removal_Cons_removable:
  assumes "fs p = Some Removable"
  shows "after_removal (fs(p := None)) rest = after_removal fs (p # rest)"
  using assms by (auto simp: after_removal_def fun_eq_iff)

lemma after_removal_Cons_failing:
  assumes "fs p \<noteq> Some Removable"
  shows "after_removal fs rest = after_removal fs (p # rest)"
  using assms by (auto simp: after_removal_def fun_eq_iff)

lemma remove_duplicates_result:
  assumes "\<forall>p \<in> set ps. CHR 0x00 \<notin> set p"
  shows "fst (remove_duplicates ps st) = None \<and>
         files (snd (remove_duplicates ps st)) = after_removal (files st) ps"
  using assms
proof (induction ps arbitrary: st)
  case Nil
  show ?case by (simp add: after_removal_def)
next
  case (Cons p rest)
  then have nul: "CHR 0x00 \<notin> set p" and rest: "\<forall>q \<in> set rest. CHR 0x00 \<notin> set q"
    by simp_all
  show ?case
  proof (cases "files st p = Some Removable")
    case True
    let ?st = "st\<lparr>outcomes := outcomes st @ [Removing p], files := (files st)(p := None)\<rparr>"
    have step: "remove_duplicates (p # rest) st = remove_duplicates rest ?st"
      using nul True by (rule remove_step_removable)
    have "files ?st = (files st)(p := None)"
      by simp
    then have "after_removal (files ?st) rest = after_removal (files st) (p # rest)"
      using after_removal_Cons_removable [of "files st" p rest, OF True] by (simp only:)
    then show ?thesis
      using Cons.IH [OF rest, of ?st] by (simp only: step)
  next
    case False
    from remove_step_failing [OF nul False, of rest] obtain e
      where "remove_duplicates (p # rest) st =
             remove_duplicates rest
               (st\<lparr>outcomes := outcomes st @ [Removing p, Failed_to_remove p e]\<rparr>)"
      by blast
    then show ?thesis
      using Cons.IH [OF rest] after_removal_Cons_failing [of "files st" p rest, OF False]
      by (simp del: remove_duplicates.simps)
  qed
qed

lemma outcomes_kept:
  assumes "\<forall>p \<in> set ps. CHR 0x00 \<notin> set p" and "ev \<in> set (outcomes st)"
  shows "ev \<in> set (outcomes (snd (remove_duplicates ps st)))"
  using assms
proof (induction ps arbitrary: st)
  case Nil
  then show ?case by simp
next
  case (Cons p rest)
  then have nul: "CHR 0x00 \<notin> set p" and rest: "\<forall>q \<in> set rest. CHR 0x00 \<notin> set q"
    by simp_all
  show ?case
  proof (cases "files st p = Some Removable")
    case True
    show ?thesis
      using Cons.IH [OF rest] Cons.prems(2)
      by (simp add: remove_step_removable [OF nul True] del: remove_duplicates.simps)
  next
    case False
    from remove_step_failing [OF nul False, of rest] obtain e
      where "remove_duplicates (p # rest) st =
             remove_duplicates rest
               (st\<lparr>outcomes := outcomes st @ [Removing p, Failed_to_remove p e]\<rparr>)"
      by blast
    then show ?thesis
      using Cons.IH [OF rest] Cons.prems(2) by (simp del: remove_duplicates.simps)
  qed
qed

lemma every_path_attempted:
  assumes "\<forall>p \<in> set ps. CHR 0x00 \<notin> set p" and "q \<in> set ps"
  shows "Removing q \<in> set (outcomes (snd (remove_duplicates ps st)))"
  using assms
proof (induction ps arbitrary: st)
  case Nil
  then show ?case by simp
next
  case (Cons p rest)
  then have nul: "CHR 0x00 \<notin> set p" and rest: "\<forall>r \<in> set rest. CHR 0x00 \<notin> set r"
    by simp_all
  show ?case
  proof (cases "files st p = Some Removable")
    case True
    show ?thesis
      using Cons.IH [OF rest] Cons.prems(2) outcomes_kept [OF rest]
      by (auto simp: remove_step_removable [OF nul True] simp del: remove_duplicates.simps)
  next
    case False
    from remove_step_failing [OF nul False, of rest] obtain e
      where "remove_duplicates (p # rest) st =
             remove_duplicates rest
               (st\<lparr>outcomes := outcomes st @ [Removing p, Failed_to_remove p e]\<rparr>)"
      by blast
    then show ?thesis
      using Cons.IH [OF rest] Cons.prems(2) outcomes_kept [OF rest]
      by (auto simp del: remove_duplicates.simps)
  qed
qed

lemma every_failure_recorded:
  assumes "\<forall>p \<in> set ps. CHR 0x00 \<notin> set p" and "q \<in> set ps"
    and "files st q \<noteq> Some Removable"
  shows "\<exists>e. is_OSError e \<and> os_remove q (files st) = Inl e \<and>
           Failed_to_remove q e \<in> set (outcomes (snd (remove_duplicates ps st)))"
  using assms
proof (induction ps arbitrary: st)
  case Nil
  then show ?case by simp
next
  case (Cons p rest)
  then have nul: "CHR 0x00 \<notin> set p" and rest: "\<forall>r \<in> set rest. CHR 0x00 \<notin> set r"
    by simp_all
  show ?case
  proof (cases "files st p = Some Removable")
    case True
    with Cons.prems(3) have neq: "q \<noteq> p" by auto
    with Cons.prems(2) have q: "q \<in> set rest" by simp
    define st' where "st' = st\<lparr>outcomes := outcomes st @ [Removing p], files := (files st)(p := None)\<rparr>"
    have step: "remove_duplicates (p # rest) st = remove_duplicates rest st'"
      unfolding st'_def using nul True by (rule remove_step_removable)
    have still: "files st' q \<noteq> Some Removable"
      using Cons.prems(3) neq by (simp add: st'_def)
    have same: "os_remove q (files st') = os_remove q (files st)"
      using neq Cons.prems(3)
      by (auto simp: st'_def os_remove_def split: option.splits node.splits)
    from Cons.IH [OF rest q still] obtain e where "is_OSError e"
      and "os_remove q (files st') = Inl e"
      and "Failed_to_remove q e \<in> set (outcomes (snd (remove_duplicates rest st')))"
      by blast
    then show ?thesis
      unfolding step same by blast
  next
    case False
    from remove_step_failing [OF nul False, of rest] obtain e
      where e: "is_OSError e" "os_remove p (files st) = Inl e"
        and step: "remove_duplicates (p # rest) st =
             remove_duplicates rest
               (st\<lparr>outcomes := outcomes st @ [Removing p, Failed_to_remove p e]\<rparr>)"
      by blast
    define st' where "st' = st\<lparr>outcomes := outcomes st @ [Removing p, Failed_to_remove p e]\<rparr>"
    have step': "remove_duplicates (p # rest) st = remove_duplicates rest st'"
      using step by (simp only: st'_def)
    have fs: "files st' = files st"
      by (simp add: st'_def)
    show ?thesis
    proof (cases "q = p")
      case True
      have "Failed_to_remove p e \<in> set (outcomes st')"
        by (simp add: st'_def)
      then have "Failed_to_remove p e \<in> set (outcomes (snd (remove_duplicates rest st')))"
        by (rule outcomes_kept [OF rest])
      with e True show ?thesis
        unfolding step' by blast
    next
      case False
      with Cons.prems(2) have q: "q \<in> set rest" by simp
      have "files st' q \<noteq> Some Removable"
        using Cons.prems(3) by (simp add: fs)
      from Cons.IH [OF rest q this] show ?thesis
        unfolding step' fs .
    qed
  qed
qed

text \<open>
  Claim C9. Given paths (strings without a NUL character), \<^verbatim>\<open>remove_duplicates\<close> raises
  nothing; it leaves exactly the files that were there, without the removable ones among the
  paths, so no failure keeps a later path from being removed; every path has its attempt
  logged, and every path that cannot be removed has its failure logged. A second run on the
  same paths raises nothing either, leaves the files as the first run left them, and logs
  \<^verbatim>\<open>FileNotFoundError\<close> for every path the first run removed.
\<close>

theorem remover_independent_and_idempotent:
  assumes "\<forall>p \<in> set ps. CHR 0x00 \<notin> set p"
  shows "fst (remove_duplicates ps st) = None \<and>
         files (snd (remove_duplicates ps st)) = after_removal (files st) ps \<and>
         (\<forall>p \<in> set ps. Removing p \<in> set (outcomes (snd (remove_duplicates ps st)))) \<and>
         (\<forall>p \<in> set ps. files st p \<noteq> Some Removable \<longrightarrow>
            (\<exists>e. is_OSError e \<and>
                 Failed_to_remove p e \<in> set (outcomes (snd (remove_duplicates ps st))))) \<and>
         fst (remove_duplicates ps (snd (remove_duplicates ps st))) = None \<and>
         files (snd (remove_duplicates ps (snd (remove_duplicates ps st)))) =
           files (snd (remove_duplicates ps st)) \<and>
         (\<forall>p \<in> set ps. files st p = Some Removable \<longrightarrow>
            Failed_to_remove p FileNotFoundError
              \<in> set (outcomes (snd (remove_duplicates ps (snd (remove_duplicates ps st))))))"
proof -
  let ?st1 = "snd (remove_duplicates ps st)"
  have first: "fst (remove_duplicates ps st) = None"
    and fs1: "files ?st1 = after_removal (files st) ps"
    using remove_duplicates_result [OF assms, of st] by simp_all
  have attempted: "\<forall>p \<in> set ps. Removing p \<in> set (outcomes ?st1)"
    using every_path_attempted [OF assms] by blast
  have recorded: "\<forall>p \<in> set ps. files st p \<noteq> Some Removable \<longrightarrow>
      (\<exists>e. is_OSError e \<and> Failed_to_remove p e \<in> set (outcomes ?st1))"
    using every_failure_recorded [OF assms] by blast
  have second: "fst (remove_duplicates ps ?st1) = None"
    and fs2: "files (snd (remove_duplicates ps ?st1)) = after_removal (files ?st1) ps"
    using remove_duplicates_result [OF assms, of ?st1] by simp_all
  have same: "after_removal (files ?st1) ps = files ?st1"
    by (auto simp: fs1 after_removal_def fun_eq_iff)
  have gone: "Failed_to_remove p FileNotFoundError \<in> set (outcomes (snd (remove_duplicates ps ?st1)))"
    if "p \<in> set ps" and "files st p = Some Removable" for p
  proof -
    have nul: "CHR 0x00 \<notin> set p" using assms that(1) by blast
    have none: "files ?st1 p = None"
      using that by (simp add: fs1 after_removal_def)
    then have "files ?st1 p \<noteq> Some Removable" by simp
    from every_failure_recorded [OF assms that(1) this] obtain e
      where "os_remove p (files ?st1) = Inl e"
        and "Failed_to_remove p e \<in> set (outcomes (snd (remove_duplicates ps ?st1)))"
      by blast
    then show ?thesis
      using os_remove_missing [of p "files ?st1", OF nul none] by simp
  qed
  show ?thesis
    using first fs1 attempted recorded second fs2 same gone by simp
qed

theorem remover_independent_and_idempotent_witness:
  "fst (remove_duplicates c9_paths c9_state) = None \<and>
   files (snd (remove_duplicates c9_paths c9_state)) ''/photos/a.jpg'' = None \<and>
   files (snd (remove_duplicates c9_paths c9_state)) ''/photos/locked.jpg'' = Some Protected \<and>
   files (snd (remove_duplicates c9_paths c9_state)) ''/photos/keep.jpg'' = Some Removable \<and>
   Removing ''/photos/a.jpg'' \<in> set (outcomes (snd (remove_duplicates c9_paths c9_state))) \<and>
   files (snd (remove_duplicates c9_paths (snd (remove_duplicates c9_paths c9_state)))) =
     files (snd (remove_duplicates c9_paths c9_state)) \<and>
   Failed_to_remove ''/photos/a.jpg'' FileNotFoundError
     \<in> set (outcomes (snd (remove_duplicates c9_paths (snd (remove_duplicates c9_paths c9_state)))))"
proof -
  have paths: "\<forall>p \<in> set c9_paths. CHR 0x00 \<notin> set p"
    by (simp add: c9_paths_def)
  have member: "''/photos/a.jpg'' \<in> set c9_paths"
    by (simp add: c9_paths_def)
  have before: "files c9_state ''/photos/a.jpg'' = Some Removable"
    "files c9_state ''/photos/locked.jpg'' = Some Protected"
    "files c9_state ''/photos/keep.jpg'' = Some Removable"
    "''/photos/keep.jpg'' \<notin> set c9_paths"
    by (simp_all add: c9_state_def c9_paths_def)
  from remover_independent_and_idempotent [OF paths, of c9_state] member before
  show ?thesis
    by (simp add: after_removal_def del: remove_duplicates.simps)
qed

text \<open>The log of the first run on the concrete paths.\<close>

lemma c9_outcomes:
  "outcomes (snd (remove_duplicates c9_paths c9_state)) =
     [Removing ''/photos/locked.jpg'', Failed_to_remove ''/photos/locked.jpg'' PermissionError,
      Removing [], Failed_to_remove [] FileNotFoundError, Removing ''/photos/a.jpg'']"
  by (simp add: c9_paths_def c9_state_def os_remove_def is_OSError_def)

end
